theory Spec2Isabelle
  imports Main "HOL-Library.Word"
begin

section \<open>The BCM2708 I2S S/PDIF driver: data model\<close>

text \<open>
  A shallow embedding of \<^verbatim>\<open>bcm2708-i2s-spdif-driver.c\<close>: the ALSA callbacks
  \<^verbatim>\<open>bcm2708_pcm_prepare\<close> and \<^verbatim>\<open>bcm2708_pcm_trigger\<close>, the DMA completion
  callback \<^verbatim>\<open>bcm2708_i2s_dma_complete\<close> and
  \<^verbatim>\<open>bcm2708_i2s_dmaengine_prepare_and_submit\<close>.

  Integer types follow the 32-bit ARM kernel of the BCM2708: \<^verbatim>\<open>int\<close>,
  \<^verbatim>\<open>atomic_t\<close> and \<^verbatim>\<open>unsigned long\<close> (\<^verbatim>\<open>snd_pcm_uframes_t\<close>) are
  32-bit words, whose arithmetic wraps. The comparison of the \<^verbatim>\<open>int\<close>
  \<^verbatim>\<open>period_frames\<close> with an \<^verbatim>\<open>unsigned long\<close> converts the former to
  unsigned, which on 32 bits keeps the bits. On a 64-bit kernel the frame
  counters are wider; the two agree as long as the counters stay below
  \<open>2 ^ 31\<close>, as they do under the bounds the theorems state. Byte offsets
  into the two buffers are natural numbers, and \<^verbatim>\<open>i2s_dma_cookie\<close>, which
  is only stored and compared with 0, is an integer.
\<close>

unbundle bit_operations_syntax

type_synonym u8 = "8 word"
type_synonym u32 = "32 word"

text \<open>The four encoder entry points of \<^verbatim>\<open>spdif-encoder.h\<close> that
  \<^verbatim>\<open>dev->encode_frame\<close> can point to.\<close>

datatype spdif_encode_func =
    spdif_encode_frame_s16le
  | spdif_encode_frame_s24le
  | spdif_encode_frame_s24le_packed
  | spdif_encode_frame_s32le

text \<open>
  The driver includes \<^verbatim>\<open>spdif-encoder.h\<close>, whose contents are left open:
  everything the driver takes from it is a field of this record, which every
  operation receives as its first argument. These are the frame size, the
  encoder (given the encoder state and the bytes found from the source pointer
  onwards, it returns the new encoder state and the bytes it stores at the
  destination pointer), the channel-status setter and the channel-status
  constants. \<open>'e\<close> is \<^verbatim>\<open>struct spdif_encoder\<close>.
\<close>

record 'e spdif_encoder_h =
  SPDIF_FRAMESIZE :: nat
  encode :: "spdif_encode_func \<Rightarrow> 'e \<Rightarrow> u8 list \<Rightarrow> 'e \<times> u8 list"
  spdif_encoder_set_channel_status :: "'e \<Rightarrow> u8 list \<Rightarrow> 'e"
  SPDIF_CS0_NOT_COPYRIGHT :: u8
  SPDIF_CS1_DDCONV :: u8
  SPDIF_CS1_ORIGINAL :: u8
  SPDIF_CS3 :: "nat \<Rightarrow> u8"
  SPDIF_CS4_WORDLEN_UNSPEC :: u8
  SPDIF_CS4_WORDLEN_20_16 :: u8
  SPDIF_CS4_WORDLEN_24_20 :: u8
  SPDIF_CS4_MAX_WORDLEN_24 :: u8

definition SPDIF_BUFSIZE_FRAMES :: nat where
  "SPDIF_BUFSIZE_FRAMES = 2 * 192"

definition SPDIF_BUFSIZE :: "'e spdif_encoder_h \<Rightarrow> nat" where
  "SPDIF_BUFSIZE H = SPDIF_BUFSIZE_FRAMES * SPDIF_FRAMESIZE H"

definition PCM_PERIODES :: nat where
  "PCM_PERIODES = 8"

definition PCM_BUFSIZE :: nat where
  "PCM_BUFSIZE = PCM_PERIODES * 192 * 24"

text \<open>The sample formats of ALSA: the six the driver names, and any other.\<close>

datatype snd_pcm_format =
    SNDRV_PCM_FORMAT_S16_LE
  | SNDRV_PCM_FORMAT_S20_LE
  | SNDRV_PCM_FORMAT_S24_LE
  | SNDRV_PCM_FORMAT_S20_3LE
  | SNDRV_PCM_FORMAT_S24_3LE
  | SNDRV_PCM_FORMAT_S32_LE
  | SNDRV_PCM_FORMAT_OTHER nat

text \<open>The substream with the fields of its runtime that the driver reads;
  \<open>dma_area\<close> is the PCM ring buffer \<^verbatim>\<open>ss->dma_buffer.area\<close>.\<close>

record snd_pcm_substream =
  dma_area :: "u8 list"
  buffer_size :: u32
  period_size :: u32
  frame_bits :: nat
  rate :: nat
  format :: snd_pcm_format
  sample_bits :: nat

record 'e bcm2708_i2s_dev =
  i2s_dma_cookie :: int
  spdif_buffer :: "u8 list"
  pcm_pointer :: u32
  spdif :: 'e
  ss :: "snd_pcm_substream option"
  period_frames :: u32
  encode_frame :: "spdif_encode_func option"
  silence :: u32

datatype errno = EINVAL | ENOMEM

text \<open>What the driver does to its surroundings: calls into ALSA, the DMA engine
  and the clock framework, and the messages of \<^verbatim>\<open>dev_info\<close> and \<^verbatim>\<open>dev_err\<close>
  (\<^verbatim>\<open>dprintk\<close> prints nothing with the default \<^verbatim>\<open>debug = 0\<close> and is left out).\<close>

datatype event =
    SND_PCM_PERIOD_ELAPSED
  | DMAENGINE_TERMINATE_ALL
  | DMAENGINE_PREP_DMA_CYCLIC nat nat
  | DMAENGINE_SUBMIT int
  | DMA_ASYNC_ISSUE_PENDING
  | INIT_CLOCK nat
  | INFO_START_SILENCED u32
  | INFO_START
  | INFO_STOP
  | INFO_PREPARE nat nat
  | ERR_INVALID_RATE nat
  | ERR_INVALID_FORMAT snd_pcm_format

datatype trigger_cmd =
    SNDRV_PCM_TRIGGER_START
  | SNDRV_PCM_TRIGGER_STOP
  | SNDRV_PCM_TRIGGER_OTHER nat

section \<open>Kernel primitives\<close>

text \<open>\<^verbatim>\<open>atomic_inc_not_zero\<close>: increments unless the counter is 0, and tells
  whether it did. Each atomic operation is one step of the model.\<close>

definition atomic_inc_not_zero :: "u32 \<Rightarrow> bool \<times> u32" where
  "atomic_inc_not_zero v = (if v \<noteq> 0 then (True, v + 1) else (False, v))"

text \<open>\<^verbatim>\<open>atomic_cmpxchg(v, old, new)\<close>: the value read, and the value left.\<close>

definition atomic_cmpxchg :: "u32 \<Rightarrow> u32 \<Rightarrow> u32 \<Rightarrow> u32 \<times> u32" where
  "atomic_cmpxchg v old new = (v, if v = old then new else v)"

definition atomic_xchg :: "u32 \<Rightarrow> u32 \<Rightarrow> u32 \<times> u32" where
  "atomic_xchg v new = (v, new)"

text \<open>\<^verbatim>\<open>frames_to_bytes(runtime, n)\<close> is \<^verbatim>\<open>n * runtime->frame_bits / 8\<close>.\<close>

definition frames_to_bytes :: "snd_pcm_substream \<Rightarrow> nat \<Rightarrow> nat" where
  "frames_to_bytes s n = n * frame_bits s div 8"

text \<open>Division of C on \<^verbatim>\<open>int\<close>, which truncates towards zero.\<close>

definition c_sdiv :: "u32 \<Rightarrow> u32 \<Rightarrow> u32" where
  "c_sdiv a b = word_of_int (sgn (sint a) * sgn (sint b) * (\<bar>sint a\<bar> div \<bar>sint b\<bar>))"

text \<open>Storing bytes from a position of a buffer on. A store beyond the end of
  the list changes nothing: memory outside the buffer is not modelled.\<close>

fun store :: "u8 list \<Rightarrow> nat \<Rightarrow> u8 list \<Rightarrow> u8 list" where
  "store buf dst [] = buf"
| "store buf dst (b # bs) = store (buf[dst := b]) (Suc dst) bs"

text \<open>\<^verbatim>\<open>const uint32_t zero[2] = {0, 0}\<close>, as the eight bytes it occupies.\<close>

definition zero :: "u8 list" where
  "zero = replicate 8 0"

section \<open>The completion callback\<close>

text \<open>Line 452: the offset of the half of the double buffer to fill.\<close>

definition refill_offset :: "'e spdif_encoder_h \<Rightarrow> nat \<Rightarrow> nat" where
  "refill_offset H residue =
     (if residue \<le> SPDIF_BUFSIZE H div 2 then 0 else SPDIF_BUFSIZE H div 2)"

text \<open>The loop of lines 457 to 460 (and of lines 493 to 496): \<open>n\<close> frames
  encoded from \<open>zero\<close>, the destination advancing by one frame each time.\<close>

fun fill_silence ::
  "'e spdif_encoder_h \<Rightarrow> spdif_encode_func \<Rightarrow> nat \<Rightarrow> 'e \<Rightarrow> u8 list \<Rightarrow> nat \<Rightarrow> 'e \<times> u8 list" where
  "fill_silence H f 0 e buf dst = (e, buf)"
| "fill_silence H f (Suc n) e buf dst =
     (case encode H f e zero of (e', fr) \<Rightarrow>
        fill_silence H f n e' (store buf dst fr) (dst + SPDIF_FRAMESIZE H))"

text \<open>The loop of lines 465 to 469: \<open>n\<close> frames encoded from the PCM area, the
  source advancing by \<open>frame_bytes\<close> and the destination by one frame.\<close>

fun fill_pcm ::
  "'e spdif_encoder_h \<Rightarrow> spdif_encode_func \<Rightarrow> nat \<Rightarrow> u8 list \<Rightarrow> nat \<Rightarrow> 'e \<Rightarrow> u8 list \<Rightarrow> nat \<Rightarrow> nat
     \<Rightarrow> 'e \<times> u8 list" where
  "fill_pcm H f 0 area frame_bytes e buf dst src = (e, buf)"
| "fill_pcm H f (Suc n) area frame_bytes e buf dst src =
     (case encode H f e (drop src area) of (e', fr) \<Rightarrow>
        fill_pcm H f n area frame_bytes e' (store buf dst fr)
          (dst + SPDIF_FRAMESIZE H) (src + frame_bytes))"

text \<open>\<^verbatim>\<open>bcm2708_i2s_dma_complete\<close>. \<open>residue\<close> is what \<^verbatim>\<open>dmaengine_tx_status\<close>
  reports. The result is the device afterwards and the calls made.\<close>

definition bcm2708_i2s_dma_complete ::
  "'e spdif_encoder_h \<Rightarrow> nat \<Rightarrow> 'e bcm2708_i2s_dev \<Rightarrow> 'e bcm2708_i2s_dev \<times> event list" where
  "bcm2708_i2s_dma_complete H residue dev =
     (case encode_frame dev of
        None \<Rightarrow> (dev, [])
      | Some f \<Rightarrow>
         (let offset = refill_offset H residue;
              (inc, sil) = atomic_inc_not_zero (silence dev);
              dev = dev\<lparr>silence := sil\<rparr>
          in if inc then
               (case fill_silence H f (SPDIF_BUFSIZE_FRAMES div 2) (spdif dev)
                       (spdif_buffer dev) offset of
                  (e, buf) \<Rightarrow> (dev\<lparr>spdif := e, spdif_buffer := buf\<rparr>, []))
             else
               (case ss dev of
                  None \<Rightarrow> (dev, [])
                | Some s \<Rightarrow>
                   (let frame_bytes = frames_to_bytes s 1;
                        src = frames_to_bytes s (unat (pcm_pointer dev));
                        (e, buf) = fill_pcm H f (SPDIF_BUFSIZE_FRAMES div 2) (dma_area s)
                                     frame_bytes (spdif dev) (spdif_buffer dev) offset src;
                        dev = dev\<lparr>spdif := e, spdif_buffer := buf\<rparr>;
                        dev = dev\<lparr>pcm_pointer :=
                                pcm_pointer dev + of_nat (SPDIF_BUFSIZE_FRAMES div 2)\<rparr>;
                        dev = (if buffer_size s \<le> pcm_pointer dev
                               then dev\<lparr>pcm_pointer := pcm_pointer dev - buffer_size s\<rparr>
                               else dev);
                        dev = dev\<lparr>period_frames :=
                                period_frames dev + of_nat (SPDIF_BUFSIZE_FRAMES div 2)\<rparr>
                    in if period_size s \<le> period_frames dev
                       then (dev\<lparr>period_frames := period_frames dev - period_size s\<rparr>,
                             [SND_PCM_PERIOD_ELAPSED])
                       else (dev, [])))))"

section \<open>Submitting the cyclic transfer\<close>

text \<open>\<^verbatim>\<open>bcm2708_i2s_dmaengine_prepare_and_submit\<close>. \<open>dma\<close> is the answer of the
  DMA engine: \<open>None\<close> when \<^verbatim>\<open>dmaengine_prep_dma_cyclic\<close> gives no descriptor,
  else the cookie of \<^verbatim>\<open>dmaengine_submit\<close>.\<close>

definition bcm2708_i2s_dmaengine_prepare_and_submit ::
  "'e spdif_encoder_h \<Rightarrow> int option \<Rightarrow> 'e bcm2708_i2s_dev
     \<Rightarrow> (errno + unit) \<times> 'e bcm2708_i2s_dev \<times> event list" where
  "bcm2708_i2s_dmaengine_prepare_and_submit H dma dev =
     (if 0 < i2s_dma_cookie dev then (Inr (), dev, [])
      else
        (let dev = (case encode_frame dev of
                      None \<Rightarrow> dev
                    | Some f \<Rightarrow>
                       (case fill_silence H f SPDIF_BUFSIZE_FRAMES (spdif dev)
                               (spdif_buffer dev) 0 of
                          (e, buf) \<Rightarrow> dev\<lparr>spdif := e, spdif_buffer := buf\<rparr>));
             prep = DMAENGINE_PREP_DMA_CYCLIC (SPDIF_BUFSIZE H) (SPDIF_BUFSIZE H div 2)
         in case dma of
              None \<Rightarrow> (Inl ENOMEM, dev, [prep])
            | Some cookie \<Rightarrow>
               (Inr (), dev\<lparr>i2s_dma_cookie := cookie\<rparr>,
                [prep, DMAENGINE_SUBMIT cookie, DMA_ASYNC_ISSUE_PENDING])))"

section \<open>The ALSA callbacks\<close>

definition bcm2708_pcm_open ::
  "snd_pcm_substream \<Rightarrow> 'e bcm2708_i2s_dev \<Rightarrow> 'e bcm2708_i2s_dev" where
  "bcm2708_pcm_open s dev = dev\<lparr>ss := Some s\<rparr>"

definition bcm2708_pcm_close :: "'e bcm2708_i2s_dev \<Rightarrow> 'e bcm2708_i2s_dev" where
  "bcm2708_pcm_close dev = dev\<lparr>ss := None\<rparr>"

text \<open>The \<^verbatim>\<open>switch\<close> over the sampling rate (lines 332 to 342): the byte for
  \<^verbatim>\<open>ch_stat[3]\<close>, or nothing for a rate that falls to \<^verbatim>\<open>default\<close>.\<close>

definition cs3_of_rate :: "'e spdif_encoder_h \<Rightarrow> nat \<Rightarrow> u8 option" where
  "cs3_of_rate H r =
     (if r = 44100 then Some (SPDIF_CS3 H 44100)
      else if r = 48000 then Some (SPDIF_CS3 H 48000)
      else if r = 88200 then Some (SPDIF_CS3 H 88200)
      else if r = 96000 then Some (SPDIF_CS3 H 96000)
      else if r = 176400 then Some (SPDIF_CS3 H 176400)
      else if r = 192000 then Some (SPDIF_CS3 H 192000)
      else None)"

text \<open>The \<^verbatim>\<open>switch\<close> over the sample format (lines 343 to 361).\<close>

fun encoder_of_format :: "snd_pcm_format \<Rightarrow> spdif_encode_func option" where
  "encoder_of_format SNDRV_PCM_FORMAT_S16_LE = Some spdif_encode_frame_s16le"
| "encoder_of_format SNDRV_PCM_FORMAT_S20_LE = Some spdif_encode_frame_s24le"
| "encoder_of_format SNDRV_PCM_FORMAT_S24_LE = Some spdif_encode_frame_s24le"
| "encoder_of_format SNDRV_PCM_FORMAT_S20_3LE = Some spdif_encode_frame_s24le_packed"
| "encoder_of_format SNDRV_PCM_FORMAT_S24_3LE = Some spdif_encode_frame_s24le_packed"
| "encoder_of_format SNDRV_PCM_FORMAT_S32_LE = Some spdif_encode_frame_s32le"
| "encoder_of_format (SNDRV_PCM_FORMAT_OTHER n) = None"

text \<open>The \<^verbatim>\<open>switch\<close> over the sample width (lines 362 to 373), which has no
  \<^verbatim>\<open>default\<close>: any other width keeps the byte.\<close>

definition cs4_of_sample_bits :: "'e spdif_encoder_h \<Rightarrow> nat \<Rightarrow> u8 \<Rightarrow> u8" where
  "cs4_of_sample_bits H b old =
     (if b = 16 then SPDIF_CS4_WORDLEN_20_16 H
      else if b = 20 then SPDIF_CS4_WORDLEN_24_20 H
      else if b = 24 \<or> b = 32 then SPDIF_CS4_MAX_WORDLEN_24 H OR SPDIF_CS4_WORDLEN_24_20 H
      else old)"

text \<open>\<^verbatim>\<open>bcm2708_pcm_prepare\<close>, for the substream \<open>s\<close> it is called with.\<close>

definition bcm2708_pcm_prepare ::
  "'e spdif_encoder_h \<Rightarrow> int option \<Rightarrow> snd_pcm_substream \<Rightarrow> 'e bcm2708_i2s_dev
     \<Rightarrow> (errno + unit) \<times> 'e bcm2708_i2s_dev \<times> event list" where
  "bcm2708_pcm_prepare H dma s dev =
     (let ch_stat = [SPDIF_CS0_NOT_COPYRIGHT H, SPDIF_CS1_DDCONV H OR SPDIF_CS1_ORIGINAL H,
                     0, 0, SPDIF_CS4_WORDLEN_UNSPEC H]
      in case cs3_of_rate H (rate s) of
           None \<Rightarrow> (Inl EINVAL, dev, [ERR_INVALID_RATE (rate s)])
         | Some cs3 \<Rightarrow>
            (let ch_stat = ch_stat[3 := cs3]
             in case encoder_of_format (format s) of
                  None \<Rightarrow> (Inl EINVAL, dev, [ERR_INVALID_FORMAT (format s)])
                | Some f \<Rightarrow>
                   (let dev = dev\<lparr>encode_frame := Some f\<rparr>;
                        ch_stat = ch_stat[4 := cs4_of_sample_bits H (sample_bits s) (ch_stat ! 4)];
                        dev = dev\<lparr>spdif := spdif_encoder_set_channel_status H (spdif dev) ch_stat\<rparr>;
                        (old, new) = atomic_cmpxchg (silence dev) 0 1;
                        dev = dev\<lparr>silence := new\<rparr>;
                        msg = (if old \<noteq> 0 then [] else [INFO_PREPARE (sample_bits s) (rate s)]);
                        (r, dev, evs) = bcm2708_i2s_dmaengine_prepare_and_submit H dma dev
                    in (Inr (), dev, INIT_CLOCK (128 * rate s) # msg @ evs))))"

text \<open>\<^verbatim>\<open>bcm2708_pcm_trigger\<close>.\<close>

definition bcm2708_pcm_trigger ::
  "'e spdif_encoder_h \<Rightarrow> int option \<Rightarrow> trigger_cmd \<Rightarrow> 'e bcm2708_i2s_dev
     \<Rightarrow> (errno + unit) \<times> 'e bcm2708_i2s_dev \<times> event list" where
  "bcm2708_pcm_trigger H dma cmd dev =
     (case cmd of
        SNDRV_PCM_TRIGGER_START \<Rightarrow>
          (let dev = dev\<lparr>pcm_pointer := 0\<rparr>;
               dev = dev\<lparr>period_frames := 0\<rparr>;
               (old, new) = atomic_xchg (silence dev) 0;
               dev = dev\<lparr>silence := new\<rparr>;
               msg = (if 1 <s old
                      then [INFO_START_SILENCED
                              (c_sdiv ((old + 1) * of_nat SPDIF_BUFSIZE_FRAMES) 2)]
                      else [INFO_START]);
               (r, dev, evs) = bcm2708_i2s_dmaengine_prepare_and_submit H dma dev
           in (Inr (), dev, msg @ evs))
      | SNDRV_PCM_TRIGGER_STOP \<Rightarrow>
          (Inr (), dev\<lparr>i2s_dma_cookie := 0\<rparr>, [INFO_STOP, DMAENGINE_TERMINATE_ALL])
      | SNDRV_PCM_TRIGGER_OTHER n \<Rightarrow> (Inl EINVAL, dev, []))"

text \<open>The constraints the driver declares in \<^verbatim>\<open>bcm2708_i2s_pcm_hw\<close>: two
  channels, a period of \<^verbatim>\<open>PCM_BUFSIZE/PCM_PERIODES\<close> bytes and \<^verbatim>\<open>PCM_PERIODES\<close>
  periods. ALSA hands over only substreams that meet them; with the frame
  sizes of the six formats (4, 6 or 8 bytes) the period is 1152, 768 or 576
  frames.\<close>

definition pcm_hw_ok :: "snd_pcm_substream \<Rightarrow> bool" where
  "pcm_hw_ok s \<longleftrightarrow>
     (frame_bits s = 32 \<or> frame_bits s = 48 \<or> frame_bits s = 64) \<and>
     unat (period_size s) * (frame_bits s div 8) = PCM_BUFSIZE div PCM_PERIODES \<and>
     unat (buffer_size s) = PCM_PERIODES * unat (period_size s) \<and>
     length (dma_area s) = PCM_BUFSIZE"

section \<open>What the fill loops compute\<close>

text \<open>The frames of a sequence of sources, one after the other, the encoder
  state passed along: the contents a filled region is compared with.\<close>

fun encode_stream ::
  "'e spdif_encoder_h \<Rightarrow> spdif_encode_func \<Rightarrow> 'e \<Rightarrow> u8 list list \<Rightarrow> 'e \<times> u8 list" where
  "encode_stream H f e [] = (e, [])"
| "encode_stream H f e (src # srcs) =
     (case encode H f e src of (e1, fr) \<Rightarrow>
        (case encode_stream H f e1 srcs of (e2, rest) \<Rightarrow> (e2, fr @ rest)))"

text \<open>\<open>n\<close> consecutive PCM frames: the bytes of the area from byte offset
  \<open>src\<close>, from \<open>src + frame_bytes\<close>, and so on.\<close>

fun pcm_frames :: "u8 list \<Rightarrow> nat \<Rightarrow> nat \<Rightarrow> nat \<Rightarrow> u8 list list" where
  "pcm_frames area frame_bytes src 0 = []"
| "pcm_frames area frame_bytes src (Suc n) =
     drop src area # pcm_frames area frame_bytes (src + frame_bytes) n"

text \<open>The encoder stores exactly one frame of \<^verbatim>\<open>SPDIF_FRAMESIZE\<close> bytes.\<close>

definition frame_sized :: "'e spdif_encoder_h \<Rightarrow> bool" where
  "frame_sized H \<longleftrightarrow> (\<forall>f e src. length (snd (encode H f e src)) = SPDIF_FRAMESIZE H)"

text \<open>The pattern \<^verbatim>\<open>if (x >= m) x -= m;\<close> of lines 471 to 473 and 476 to 478.\<close>

definition wrap_sub :: "u32 \<Rightarrow> u32 \<Rightarrow> u32" where
  "wrap_sub x m = (if m \<le> x then x - m else x)"

section \<open>The driver as a state machine\<close>

text \<open>The device as a successful \<^verbatim>\<open>bcm2708_i2s_probe\<close> leaves it: zeroed by
  \<^verbatim>\<open>devm_kzalloc\<close>, with the S/PDIF buffer allocated (contents \<open>buf\<close>), the
  encoder initialised (state \<open>e0\<close>) and no substream.\<close>

definition bcm2708_i2s_probe :: "'e \<Rightarrow> u8 list \<Rightarrow> 'e bcm2708_i2s_dev" where
  "bcm2708_i2s_probe e0 buf =
     \<lparr>i2s_dma_cookie = 0, spdif_buffer = buf, pcm_pointer = 0, spdif = e0, ss = None,
      period_frames = 0, encode_frame = None, silence = 0\<rparr>"

text \<open>The entry points through which ALSA and the DMA engine drive the device.
  \<^verbatim>\<open>prepare\<close> is called for the open substream only.\<close>

datatype driver_op =
    OPEN snd_pcm_substream
  | CLOSE
  | PREPARE "int option"
  | TRIGGER "int option" trigger_cmd
  | DMA_COMPLETE nat

fun step ::
  "'e spdif_encoder_h \<Rightarrow> driver_op \<Rightarrow> 'e bcm2708_i2s_dev \<Rightarrow> 'e bcm2708_i2s_dev \<times> event list" where
  "step H (OPEN s) dev = (bcm2708_pcm_open s dev, [])"
| "step H CLOSE dev = (bcm2708_pcm_close dev, [])"
| "step H (PREPARE dma) dev =
     (case ss dev of None \<Rightarrow> (dev, []) | Some s \<Rightarrow> snd (bcm2708_pcm_prepare H dma s dev))"
| "step H (TRIGGER dma cmd) dev = snd (bcm2708_pcm_trigger H dma cmd dev)"
| "step H (DMA_COMPLETE residue) dev = bcm2708_i2s_dma_complete H residue dev"

fun run ::
  "'e spdif_encoder_h \<Rightarrow> driver_op list \<Rightarrow> 'e bcm2708_i2s_dev \<Rightarrow> 'e bcm2708_i2s_dev \<times> event list" where
  "run H [] dev = (dev, [])"
| "run H (x # xs) dev =
     (case step H x dev of (dev1, ev1) \<Rightarrow>
        (case run H xs dev1 of (dev2, ev2) \<Rightarrow> (dev2, ev1 @ ev2)))"

section \<open>Concrete inputs\<close>

text \<open>A stand-in for \<^verbatim>\<open>spdif-encoder.h\<close> on which the driver can be run: frames
  of 16 bytes, an encoder that counts the frames it has produced and repeats
  the first source byte, a channel-status setter that keeps the encoder state,
  and some channel-status constants.\<close>

definition stub_h :: "nat spdif_encoder_h" where
  "stub_h =
     \<lparr>SPDIF_FRAMESIZE = 16,
      encode = (\<lambda>f e src. (Suc e, replicate 16 (case src of [] \<Rightarrow> 0 | b # _ \<Rightarrow> b))),
      spdif_encoder_set_channel_status = (\<lambda>e cs. e),
      SPDIF_CS0_NOT_COPYRIGHT = 4,
      SPDIF_CS1_DDCONV = 2,
      SPDIF_CS1_ORIGINAL = 128,
      SPDIF_CS3 = (\<lambda>r. if r = 48000 then 2 else 0),
      SPDIF_CS4_WORDLEN_UNSPEC = 0,
      SPDIF_CS4_WORDLEN_20_16 = 2,
      SPDIF_CS4_WORDLEN_24_20 = 10,
      SPDIF_CS4_MAX_WORDLEN_24 = 1\<rparr>"

text \<open>A substream as the declared constraints allow it: 32-bit samples, eight
  periods of 576 frames.\<close>

definition pcm_s32 :: snd_pcm_substream where
  "pcm_s32 =
     \<lparr>dma_area = replicate PCM_BUFSIZE 7, buffer_size = 4608, period_size = 576,
      frame_bits = 64, rate = 48000, format = SNDRV_PCM_FORMAT_S32_LE, sample_bits = 32\<rparr>"

text \<open>A substream outside the declared constraints, with periods of 96 frames.\<close>

definition pcm_short_period :: snd_pcm_substream where
  "pcm_short_period = pcm_s32\<lparr>buffer_size := 768, period_size := 96\<rparr>"

text \<open>A substream with a sampling rate the driver does not know.\<close>

definition pcm_bad_rate :: snd_pcm_substream where
  "pcm_bad_rate = pcm_s32\<lparr>rate := 32000\<rparr>"

definition probed :: "nat bcm2708_i2s_dev" where
  "probed = bcm2708_i2s_probe 0 (replicate (SPDIF_BUFSIZE stub_h) 0)"

text \<open>The device while it emits silence, and while it plays \<open>pcm_s32\<close>.\<close>

definition silent :: "nat bcm2708_i2s_dev" where
  "silent = probed\<lparr>i2s_dma_cookie := 1, ss := Some pcm_s32,
                    encode_frame := Some spdif_encode_frame_s32le, silence := 3\<rparr>"

definition playing :: "nat bcm2708_i2s_dev" where
  "playing = silent\<lparr>silence := 0\<rparr>"

section \<open>Stores and fill loops\<close>

lemma length_store: "length (store buf dst fr) = length buf"
  by (induction fr arbitrary: buf dst) simp_all

lemma store_eq:
  "dst + length fr \<le> length buf \<Longrightarrow>
   store buf dst fr = take dst buf @ fr @ drop (dst + length fr) buf"
proof (induction fr arbitrary: buf dst)
  case Nil
  then show ?case by simp
next
  case (Cons b bs)
  have lt: "dst < length buf" using Cons.prems by simp
  have "store (buf[dst := b]) (Suc dst) bs =
        take (Suc dst) (buf[dst := b]) @ bs @ drop (Suc dst + length bs) (buf[dst := b])"
    using Cons.prems by (intro Cons.IH) simp
  also have "take (Suc dst) (buf[dst := b]) = take dst buf @ [b]"
    using lt by (simp add: take_Suc_conv_app_nth)
  also have "drop (Suc dst + length bs) (buf[dst := b]) = drop (dst + length (b # bs)) buf"
    by simp
  finally show ?case by simp
qed

lemma drop_app3: "length a = m \<Longrightarrow> length b = k \<Longrightarrow> drop (m + k + j) (a @ b @ c) = drop j c"
  by simp

lemma encode_len: "frame_sized H \<Longrightarrow> encode H f e src = (e', fr) \<Longrightarrow> length fr = SPDIF_FRAMESIZE H"
  unfolding frame_sized_def by (metis snd_conv)

lemma length_fill_silence: "length (snd (fill_silence H f n e buf dst)) = length buf"
  by (induction n arbitrary: e buf dst) (auto simp: length_store split: prod.splits)

lemma length_fill_pcm: "length (snd (fill_pcm H f n area fb e buf dst src)) = length buf"
  by (induction n arbitrary: e buf dst src) (auto simp: length_store split: prod.splits)

lemma length_encode_stream:
  "frame_sized H \<Longrightarrow> length (snd (encode_stream H f e srcs)) = length srcs * SPDIF_FRAMESIZE H"
proof (induction srcs arbitrary: e)
  case Nil
  then show ?case by simp
next
  case (Cons s srcs)
  obtain e1 fr where enc: "encode H f e s = (e1, fr)" by (cases "encode H f e s")
  obtain e2 rest where str: "encode_stream H f e1 srcs = (e2, rest)"
    by (cases "encode_stream H f e1 srcs")
  have "length rest = length srcs * SPDIF_FRAMESIZE H"
    using Cons.IH [OF Cons.prems, of e1] str by simp
  moreover have "length fr = SPDIF_FRAMESIZE H" using Cons.prems enc by (rule encode_len)
  ultimately show ?case by (simp add: enc str)
qed

lemma fill_silence_eq:
  "frame_sized H \<Longrightarrow> dst + n * SPDIF_FRAMESIZE H \<le> length buf \<Longrightarrow>
   fill_silence H f n e buf dst =
     (fst (encode_stream H f e (replicate n zero)),
      take dst buf @ snd (encode_stream H f e (replicate n zero))
        @ drop (dst + n * SPDIF_FRAMESIZE H) buf)"
proof (induction n arbitrary: e buf dst)
  case 0
  then show ?case by simp
next
  case (Suc n)
  let ?fs = "SPDIF_FRAMESIZE H"
  obtain e1 fr where enc: "encode H f e zero = (e1, fr)" by (cases "encode H f e zero")
  obtain e2 rest where str: "encode_stream H f e1 (replicate n zero) = (e2, rest)"
    by (cases "encode_stream H f e1 (replicate n zero)")
  have len: "length fr = ?fs" using Suc.prems(1) enc by (rule encode_len)
  have st: "store buf dst fr = take dst buf @ fr @ drop (dst + ?fs) buf"
    using Suc.prems(2) len store_eq [of dst fr buf] by simp
  have le: "dst + ?fs + n * ?fs \<le> length (store buf dst fr)"
    using Suc.prems(2) by (simp add: length_store)
  have "fill_silence H f n e1 (store buf dst fr) (dst + ?fs) =
          (e2, take (dst + ?fs) (store buf dst fr) @ rest
               @ drop (dst + ?fs + n * ?fs) (store buf dst fr))"
    using Suc.IH [OF Suc.prems(1) le, of e1] str by simp
  moreover have "take (dst + ?fs) (store buf dst fr) = take dst buf @ fr"
    using Suc.prems(2) len by (simp add: st)
  moreover have "drop (dst + ?fs + n * ?fs) (store buf dst fr) = drop (dst + Suc n * ?fs) buf"
  proof -
    have "length (take dst buf) = dst" using Suc.prems(2) by simp
    then have "drop (dst + ?fs + n * ?fs) (take dst buf @ fr @ drop (dst + ?fs) buf)
               = drop (n * ?fs) (drop (dst + ?fs) buf)"
      using len by (rule drop_app3)
    then show ?thesis by (simp add: st ac_simps)
  qed
  ultimately show ?case by (simp add: enc str)
qed

lemma fill_pcm_eq:
  "frame_sized H \<Longrightarrow> dst + n * SPDIF_FRAMESIZE H \<le> length buf \<Longrightarrow>
   fill_pcm H f n area fb e buf dst src =
     (fst (encode_stream H f e (pcm_frames area fb src n)),
      take dst buf @ snd (encode_stream H f e (pcm_frames area fb src n))
        @ drop (dst + n * SPDIF_FRAMESIZE H) buf)"
proof (induction n arbitrary: e buf dst src)
  case 0
  then show ?case by simp
next
  case (Suc n)
  let ?fs = "SPDIF_FRAMESIZE H"
  obtain e1 fr where enc: "encode H f e (drop src area) = (e1, fr)"
    by (cases "encode H f e (drop src area)")
  obtain e2 rest where str: "encode_stream H f e1 (pcm_frames area fb (src + fb) n) = (e2, rest)"
    by (cases "encode_stream H f e1 (pcm_frames area fb (src + fb) n)")
  have len: "length fr = ?fs" using Suc.prems(1) enc by (rule encode_len)
  have st: "store buf dst fr = take dst buf @ fr @ drop (dst + ?fs) buf"
    using Suc.prems(2) len store_eq [of dst fr buf] by simp
  have le: "dst + ?fs + n * ?fs \<le> length (store buf dst fr)"
    using Suc.prems(2) by (simp add: length_store)
  have "fill_pcm H f n area fb e1 (store buf dst fr) (dst + ?fs) (src + fb) =
          (e2, take (dst + ?fs) (store buf dst fr) @ rest
               @ drop (dst + ?fs + n * ?fs) (store buf dst fr))"
    using Suc.IH [OF Suc.prems(1) le, of e1 "src + fb"] str by simp
  moreover have "take (dst + ?fs) (store buf dst fr) = take dst buf @ fr"
    using Suc.prems(2) len by (simp add: st)
  moreover have "drop (dst + ?fs + n * ?fs) (store buf dst fr) = drop (dst + Suc n * ?fs) buf"
  proof -
    have "length (take dst buf) = dst" using Suc.prems(2) by simp
    then have "drop (dst + ?fs + n * ?fs) (take dst buf @ fr @ drop (dst + ?fs) buf)
               = drop (n * ?fs) (drop (dst + ?fs) buf)"
      using len by (rule drop_app3)
    then show ?thesis by (simp add: st ac_simps)
  qed
  ultimately show ?case by (simp add: enc str)
qed

lemma length_pcm_frames: "length (pcm_frames area fb src n) = n"
  by (induction n arbitrary: src) simp_all

lemma pcm_frames_nth: "i < n \<Longrightarrow> pcm_frames area fb src n ! i = drop (src + i * fb) area"
proof (induction n arbitrary: src i)
  case 0
  then show ?case by simp
next
  case (Suc n)
  then show ?case by (cases i) (simp_all add: add.assoc)
qed

section \<open>The branches of the completion callback\<close>

lemma dma_complete_unconfigured:
  "encode_frame dev = None \<Longrightarrow> bcm2708_i2s_dma_complete H residue dev = (dev, [])"
  by (simp add: bcm2708_i2s_dma_complete_def)

lemma dma_complete_silence:
  "encode_frame dev = Some f \<Longrightarrow> silence dev \<noteq> 0 \<Longrightarrow>
   bcm2708_i2s_dma_complete H residue dev =
     (dev\<lparr>silence := silence dev + 1,
          spdif := fst (fill_silence H f (SPDIF_BUFSIZE_FRAMES div 2) (spdif dev)
                          (spdif_buffer dev) (refill_offset H residue)),
          spdif_buffer := snd (fill_silence H f (SPDIF_BUFSIZE_FRAMES div 2) (spdif dev)
                          (spdif_buffer dev) (refill_offset H residue))\<rparr>, [])"
  by (simp add: bcm2708_i2s_dma_complete_def atomic_inc_not_zero_def Let_def case_prod_beta)

lemma dma_complete_idle:
  "encode_frame dev = Some f \<Longrightarrow> silence dev = 0 \<Longrightarrow> ss dev = None \<Longrightarrow>
   bcm2708_i2s_dma_complete H residue dev = (dev, [])"
  by (simp add: bcm2708_i2s_dma_complete_def atomic_inc_not_zero_def Let_def)

lemma dma_complete_pcm:
  "encode_frame dev = Some f \<Longrightarrow> silence dev = 0 \<Longrightarrow> ss dev = Some s \<Longrightarrow>
   bcm2708_i2s_dma_complete H residue dev =
     (dev\<lparr>spdif := fst (fill_pcm H f (SPDIF_BUFSIZE_FRAMES div 2) (dma_area s)
                          (frames_to_bytes s 1) (spdif dev) (spdif_buffer dev)
                          (refill_offset H residue) (frames_to_bytes s (unat (pcm_pointer dev)))),
          spdif_buffer := snd (fill_pcm H f (SPDIF_BUFSIZE_FRAMES div 2) (dma_area s)
                          (frames_to_bytes s 1) (spdif dev) (spdif_buffer dev)
                          (refill_offset H residue) (frames_to_bytes s (unat (pcm_pointer dev)))),
          pcm_pointer := wrap_sub (pcm_pointer dev + of_nat (SPDIF_BUFSIZE_FRAMES div 2)) (buffer_size s),
          period_frames := wrap_sub (period_frames dev + of_nat (SPDIF_BUFSIZE_FRAMES div 2)) (period_size s)\<rparr>,
      if period_size s \<le> period_frames dev + of_nat (SPDIF_BUFSIZE_FRAMES div 2)
      then [SND_PCM_PERIOD_ELAPSED] else [])"
  by (simp add: bcm2708_i2s_dma_complete_def atomic_inc_not_zero_def Let_def case_prod_beta wrap_sub_def)

lemma wrap_sub_mod:
  assumes "x < m" "192 \<le> m" "unat m \<le> 2 ^ 31"
  shows "unat (wrap_sub (x + 192) m) = (unat x + 192) mod unat m"
    and "(m \<le> x + 192) = (unat m \<le> unat x + 192)"
    and "(unat x + 192) div unat m = (if m \<le> x + 192 then 1 else 0)"
proof -
  have xm: "unat x < unat m" using assms(1) by (simp add: word_less_nat_alt)
  have m192: "192 \<le> unat m" using assms(2) by (simp add: word_le_nat_alt)
  have sum: "unat (x + 192) = unat x + 192"
    using xm assms(3) by (simp add: unat_word_ariths)
  show le: "(m \<le> x + 192) = (unat m \<le> unat x + 192)"
    by (simp add: word_le_nat_alt sum)
  show "unat (wrap_sub (x + 192) m) = (unat x + 192) mod unat m"
  proof (cases "m \<le> x + 192")
    case True
    then have "unat (x + 192 - m) = unat x + 192 - unat m"
      by (simp add: unat_sub sum)
    moreover have "(unat x + 192) mod unat m = unat x + 192 - unat m"
      using True xm m192 le by (simp add: mod_if)
    ultimately show ?thesis using True by (simp add: wrap_sub_def)
  next
    case False
    then show ?thesis using le by (simp add: wrap_sub_def sum)
  qed
  show "(unat x + 192) div unat m = (if m \<le> x + 192 then 1 else 0)"
  proof (cases "m \<le> x + 192")
    case True
    then have "unat m \<le> unat x + 192" "unat x + 192 < 2 * unat m"
      using le xm m192 by auto
    then have "(unat x + 192) div unat m = 1"
      by (intro div_nat_eqI) simp_all
    then show ?thesis using True by simp
  next
    case False
    then show ?thesis using le by simp
  qed
qed

section \<open>Further facts about the operations\<close>

lemma submit_keeps:
  "silence (fst (snd (bcm2708_i2s_dmaengine_prepare_and_submit H dma dev))) = silence dev"
  "pcm_pointer (fst (snd (bcm2708_i2s_dmaengine_prepare_and_submit H dma dev))) = pcm_pointer dev"
  "period_frames (fst (snd (bcm2708_i2s_dmaengine_prepare_and_submit H dma dev))) = period_frames dev"
  "ss (fst (snd (bcm2708_i2s_dmaengine_prepare_and_submit H dma dev))) = ss dev"
  "encode_frame (fst (snd (bcm2708_i2s_dmaengine_prepare_and_submit H dma dev))) = encode_frame dev"
  by (simp_all add: bcm2708_i2s_dmaengine_prepare_and_submit_def Let_def case_prod_beta
        split: option.splits)

lemma submit_no_period_elapsed:
  "SND_PCM_PERIOD_ELAPSED \<notin> set (snd (snd (bcm2708_i2s_dmaengine_prepare_and_submit H dma dev)))"
  by (simp add: bcm2708_i2s_dmaengine_prepare_and_submit_def Let_def case_prod_beta
        split: option.splits)

lemma take_store: "k \<le> dst \<Longrightarrow> take k (store buf dst fr) = take k buf"
  by (induction fr arbitrary: buf dst) (simp_all add: take_update_cancel)

lemma drop_store: "dst + length fr \<le> k \<Longrightarrow> drop k (store buf dst fr) = drop k buf"
  by (induction fr arbitrary: buf dst) (simp_all add: drop_update_cancel)

lemma take_fill_silence:
  "k \<le> dst \<Longrightarrow> take k (snd (fill_silence H f n e buf dst)) = take k buf"
  by (induction n arbitrary: e buf dst) (auto simp: take_store split: prod.splits)

lemma take_fill_pcm:
  "k \<le> dst \<Longrightarrow> take k (snd (fill_pcm H f n area fb e buf dst src)) = take k buf"
  by (induction n arbitrary: e buf dst src) (auto simp: take_store split: prod.splits)

lemma drop_fill_silence:
  "frame_sized H \<Longrightarrow> dst + n * SPDIF_FRAMESIZE H \<le> k \<Longrightarrow>
   drop k (snd (fill_silence H f n e buf dst)) = drop k buf"
proof (induction n arbitrary: e buf dst)
  case 0
  then show ?case by simp
next
  case (Suc n)
  obtain e' fr where enc: "encode H f e zero = (e', fr)" by (cases "encode H f e zero")
  have len: "length fr = SPDIF_FRAMESIZE H" using Suc.prems(1) enc by (rule encode_len)
  have "drop k (snd (fill_silence H f n e' (store buf dst fr) (dst + SPDIF_FRAMESIZE H)))
        = drop k (store buf dst fr)"
    using Suc.prems by (intro Suc.IH) auto
  also have "\<dots> = drop k buf"
    using Suc.prems(2) len by (intro drop_store) auto
  finally show ?case by (simp add: enc)
qed

lemma drop_fill_pcm:
  "frame_sized H \<Longrightarrow> dst + n * SPDIF_FRAMESIZE H \<le> k \<Longrightarrow>
   drop k (snd (fill_pcm H f n area fb e buf dst src)) = drop k buf"
proof (induction n arbitrary: e buf dst src)
  case 0
  then show ?case by simp
next
  case (Suc n)
  obtain e' fr where enc: "encode H f e (drop src area) = (e', fr)"
    by (cases "encode H f e (drop src area)")
  have len: "length fr = SPDIF_FRAMESIZE H" using Suc.prems(1) enc by (rule encode_len)
  have "drop k (snd (fill_pcm H f n area fb e' (store buf dst fr) (dst + SPDIF_FRAMESIZE H) (src + fb)))
        = drop k (store buf dst fr)"
    using Suc.prems by (intro Suc.IH) auto
  also have "\<dots> = drop k buf"
    using Suc.prems(2) len by (intro drop_store) auto
  finally show ?case by (simp add: enc)
qed

lemma half_frames: "(SPDIF_BUFSIZE_FRAMES div 2) * SPDIF_FRAMESIZE H = SPDIF_BUFSIZE H div 2"
  by (simp add: SPDIF_BUFSIZE_def SPDIF_BUFSIZE_FRAMES_def)

lemma refill_offset_fits: "refill_offset H residue + SPDIF_BUFSIZE H div 2 \<le> SPDIF_BUFSIZE H"
  by (simp add: refill_offset_def SPDIF_BUFSIZE_def SPDIF_BUFSIZE_FRAMES_def)

text \<open>Outside the chosen half the callback leaves the buffer as it was.\<close>

lemma dma_complete_frame:
  assumes "frame_sized H"
  shows "take (refill_offset H residue)
           (spdif_buffer (fst (bcm2708_i2s_dma_complete H residue dev)))
         = take (refill_offset H residue) (spdif_buffer dev)"
    and "drop (refill_offset H residue + SPDIF_BUFSIZE H div 2)
           (spdif_buffer (fst (bcm2708_i2s_dma_complete H residue dev)))
         = drop (refill_offset H residue + SPDIF_BUFSIZE H div 2) (spdif_buffer dev)"
    and "length (spdif_buffer (fst (bcm2708_i2s_dma_complete H residue dev)))
         = length (spdif_buffer dev)"
proof -
  let ?n = "SPDIF_BUFSIZE_FRAMES div 2"
  have d: "refill_offset H residue + ?n * SPDIF_FRAMESIZE H
             \<le> refill_offset H residue + SPDIF_BUFSIZE H div 2"
    by (simp add: half_frames)
  consider (none) "encode_frame dev = None"
    | (sil) f where "encode_frame dev = Some f" "silence dev \<noteq> 0"
    | (idle) f where "encode_frame dev = Some f" "silence dev = 0" "ss dev = None"
    | (pcm) f s where "encode_frame dev = Some f" "silence dev = 0" "ss dev = Some s"
    by (cases "encode_frame dev"; cases "ss dev"; cases "silence dev = 0") auto
  then have "take (refill_offset H residue)
           (spdif_buffer (fst (bcm2708_i2s_dma_complete H residue dev)))
         = take (refill_offset H residue) (spdif_buffer dev) \<and>
     drop (refill_offset H residue + SPDIF_BUFSIZE H div 2)
           (spdif_buffer (fst (bcm2708_i2s_dma_complete H residue dev)))
         = drop (refill_offset H residue + SPDIF_BUFSIZE H div 2) (spdif_buffer dev) \<and>
     length (spdif_buffer (fst (bcm2708_i2s_dma_complete H residue dev)))
         = length (spdif_buffer dev)"
  proof cases
    case none
    then show ?thesis by (simp add: dma_complete_unconfigured)
  next
    case sil
    then show ?thesis
      using drop_fill_silence [OF assms d]
      by (simp add: dma_complete_silence take_fill_silence length_fill_silence)
  next
    case idle
    then show ?thesis by (simp add: dma_complete_idle)
  next
    case pcm
    then show ?thesis
      using drop_fill_pcm [OF assms d]
      by (simp add: dma_complete_pcm take_fill_pcm length_fill_pcm)
  qed
  then show "take (refill_offset H residue)
           (spdif_buffer (fst (bcm2708_i2s_dma_complete H residue dev)))
         = take (refill_offset H residue) (spdif_buffer dev)"
    and "drop (refill_offset H residue + SPDIF_BUFSIZE H div 2)
           (spdif_buffer (fst (bcm2708_i2s_dma_complete H residue dev)))
         = drop (refill_offset H residue + SPDIF_BUFSIZE H div 2) (spdif_buffer dev)"
    and "length (spdif_buffer (fst (bcm2708_i2s_dma_complete H residue dev)))
         = length (spdif_buffer dev)"
    by simp_all
qed




lemma half_frames_word: "(of_nat (SPDIF_BUFSIZE_FRAMES div 2) :: u32) = 192"
  and half_frames_nat: "SPDIF_BUFSIZE_FRAMES div 2 = 192"
  by (simp_all add: SPDIF_BUFSIZE_FRAMES_def)

lemma frame_sized_stub: "frame_sized stub_h"
  by (simp add: frame_sized_def stub_h_def)

lemma stub_bufsize: "SPDIF_BUFSIZE stub_h = 6144"
  by (simp add: SPDIF_BUFSIZE_def SPDIF_BUFSIZE_FRAMES_def stub_h_def)

lemma silent_fields:
  "encode_frame silent = Some spdif_encode_frame_s32le" "silence silent = 3"
  "ss silent = Some pcm_s32" "pcm_pointer silent = 0" "period_frames silent = 0"
  "length (spdif_buffer silent) = SPDIF_BUFSIZE stub_h" "i2s_dma_cookie silent = 1"
  by (simp_all add: silent_def probed_def bcm2708_i2s_probe_def)

lemma playing_fields:
  "encode_frame playing = Some spdif_encode_frame_s32le" "silence playing = 0"
  "ss playing = Some pcm_s32" "pcm_pointer playing = 0" "period_frames playing = 0"
  "length (spdif_buffer playing) = SPDIF_BUFSIZE stub_h" "i2s_dma_cookie playing = 1"
  by (simp_all add: playing_def silent_def probed_def bcm2708_i2s_probe_def)

lemma pcm_s32_fields:
  "buffer_size pcm_s32 = 4608" "period_size pcm_s32 = 576" "frame_bits pcm_s32 = 64"
  "rate pcm_s32 = 48000" "format pcm_s32 = SNDRV_PCM_FORMAT_S32_LE" "sample_bits pcm_s32 = 32"
  "length (dma_area pcm_s32) = PCM_BUFSIZE"
  by (simp_all add: pcm_s32_def)

lemma stub_framesize: "SPDIF_FRAMESIZE stub_h = 16"
  by (simp add: stub_h_def)

lemma prepare_accepts:
  assumes "cs3_of_rate H (rate s) = Some c" "encoder_of_format (format s) = Some f"
  shows "fst (bcm2708_pcm_prepare H dma s dev) = Inr ()"
    and "encode_frame (fst (snd (bcm2708_pcm_prepare H dma s dev))) = Some f"
    and "silence (fst (snd (bcm2708_pcm_prepare H dma s dev)))
         = (if silence dev = 0 then 1 else silence dev)"
    and "ss (fst (snd (bcm2708_pcm_prepare H dma s dev))) = ss dev"
    and "pcm_pointer (fst (snd (bcm2708_pcm_prepare H dma s dev))) = pcm_pointer dev"
    and "period_frames (fst (snd (bcm2708_pcm_prepare H dma s dev))) = period_frames dev"
    and "SND_PCM_PERIOD_ELAPSED \<notin> set (snd (snd (bcm2708_pcm_prepare H dma s dev)))"
  using assms
  by (simp_all add: bcm2708_pcm_prepare_def Let_def case_prod_beta atomic_cmpxchg_def submit_keeps
        submit_no_period_elapsed)

lemma trigger_keeps:
  "ss (fst (snd (bcm2708_pcm_trigger H dma cmd dev))) = ss dev"
  "encode_frame (fst (snd (bcm2708_pcm_trigger H dma cmd dev))) = encode_frame dev"
  "SND_PCM_PERIOD_ELAPSED \<notin> set (snd (snd (bcm2708_pcm_trigger H dma cmd dev)))"
  by (simp_all add: bcm2708_pcm_trigger_def Let_def case_prod_beta submit_keeps
        submit_no_period_elapsed split: trigger_cmd.splits)

lemma trigger_start_fields:
  "pcm_pointer (fst (snd (bcm2708_pcm_trigger H dma SNDRV_PCM_TRIGGER_START dev))) = 0"
  "period_frames (fst (snd (bcm2708_pcm_trigger H dma SNDRV_PCM_TRIGGER_START dev))) = 0"
  "silence (fst (snd (bcm2708_pcm_trigger H dma SNDRV_PCM_TRIGGER_START dev))) = 0"
  by (simp_all add: bcm2708_pcm_trigger_def Let_def case_prod_beta atomic_xchg_def submit_keeps)

lemma trigger_stop:
  "bcm2708_pcm_trigger H dma SNDRV_PCM_TRIGGER_STOP dev
   = (Inr (), dev\<lparr>i2s_dma_cookie := 0\<rparr>, [INFO_STOP, DMAENGINE_TERMINATE_ALL])"
  by (simp add: bcm2708_pcm_trigger_def)

text \<open>Opening a substream, preparing it and starting it leads to playback from
  position 0.\<close>

lemma run_to_start:
  assumes "cs3_of_rate H (rate s) = Some c" "encoder_of_format (format s) = Some f"
  shows "encode_frame (fst (run H [OPEN s, PREPARE dma, TRIGGER dma' SNDRV_PCM_TRIGGER_START] dev)) = Some f"
    and "silence (fst (run H [OPEN s, PREPARE dma, TRIGGER dma' SNDRV_PCM_TRIGGER_START] dev)) = 0"
    and "ss (fst (run H [OPEN s, PREPARE dma, TRIGGER dma' SNDRV_PCM_TRIGGER_START] dev)) = Some s"
    and "pcm_pointer (fst (run H [OPEN s, PREPARE dma, TRIGGER dma' SNDRV_PCM_TRIGGER_START] dev)) = 0"
    and "period_frames (fst (run H [OPEN s, PREPARE dma, TRIGGER dma' SNDRV_PCM_TRIGGER_START] dev)) = 0"
  using assms
  by (simp_all add: case_prod_beta bcm2708_pcm_open_def trigger_keeps trigger_start_fields
        prepare_accepts)

lemma short_period_fields:
  "cs3_of_rate stub_h (rate pcm_short_period) = Some 2"
  "encoder_of_format (format pcm_short_period) = Some spdif_encode_frame_s32le"
  "period_size pcm_short_period = 96" "buffer_size pcm_short_period = 768"
  by (simp_all add: pcm_short_period_def pcm_s32_def cs3_of_rate_def stub_h_def)

lemma run_append:
  "run H (xs @ ys) dev =
     (fst (run H ys (fst (run H xs dev))), snd (run H xs dev) @ snd (run H ys (fst (run H xs dev))))"
  by (induction xs arbitrary: dev) (simp_all add: case_prod_beta)

lemma dma_complete_pcm_fields:
  assumes "encode_frame dev = Some f" "silence dev = 0" "ss dev = Some s"
  shows "encode_frame (fst (bcm2708_i2s_dma_complete H residue dev)) = Some f"
    and "silence (fst (bcm2708_i2s_dma_complete H residue dev)) = 0"
    and "ss (fst (bcm2708_i2s_dma_complete H residue dev)) = Some s"
    and "pcm_pointer (fst (bcm2708_i2s_dma_complete H residue dev))
         = wrap_sub (pcm_pointer dev + 192) (buffer_size s)"
    and "period_frames (fst (bcm2708_i2s_dma_complete H residue dev))
         = wrap_sub (period_frames dev + 192) (period_size s)"
    and "snd (bcm2708_i2s_dma_complete H residue dev)
         = (if period_size s \<le> period_frames dev + 192 then [SND_PCM_PERIOD_ELAPSED] else [])"
  using assms by (simp_all add: dma_complete_pcm half_frames_word)

lemma pcm_s32_accepted:
  "cs3_of_rate stub_h (rate pcm_s32) = Some 2"
  "encoder_of_format (format pcm_s32) = Some spdif_encode_frame_s32le"
  by (simp_all add: pcm_s32_def cs3_of_rate_def stub_h_def)

lemma dma_complete_silence_counter:
  "silence (fst (bcm2708_i2s_dma_complete H residue dev))
   = (if encode_frame dev \<noteq> None \<and> silence dev \<noteq> 0 then silence dev + 1 else silence dev)"
proof (cases "encode_frame dev")
  case None
  then show ?thesis by (simp add: dma_complete_unconfigured)
next
  case (Some f)
  show ?thesis
  proof (cases "silence dev = 0")
    case False
    with Some show ?thesis by (simp add: dma_complete_silence)
  next
    case True
    with Some show ?thesis
      by (cases "ss dev") (simp_all add: dma_complete_idle dma_complete_pcm)
  qed
qed

lemma prepare_silence_counter:
  "silence (fst (snd (bcm2708_pcm_prepare H dma s dev))) = silence dev \<or>
   silence (fst (snd (bcm2708_pcm_prepare H dma s dev))) = 1"
  by (cases "cs3_of_rate H (rate s)"; cases "encoder_of_format (format s)")
     (simp_all add: prepare_accepts(3), simp_all add: bcm2708_pcm_prepare_def)

lemma trigger_silence_counter:
  "silence dev = 0 \<Longrightarrow> silence (fst (snd (bcm2708_pcm_trigger H dma cmd dev))) = 0"
  by (cases cmd) (simp_all add: trigger_start_fields trigger_stop, simp add: bcm2708_pcm_trigger_def)

lemma pcm_hw_ok_sizes:
  assumes "pcm_hw_ok s"
  shows "unat (period_size s) \<in> {1152, 768, 576}"
    and "unat (buffer_size s) = 8 * unat (period_size s)"
proof -
  have fb: "frame_bits s = 32 \<or> frame_bits s = 48 \<or> frame_bits s = 64"
    and per: "unat (period_size s) * (frame_bits s div 8) = 4608"
    and buf: "unat (buffer_size s) = 8 * unat (period_size s)"
    using assms by (simp_all add: pcm_hw_ok_def PCM_BUFSIZE_def PCM_PERIODES_def)
  show "unat (buffer_size s) = 8 * unat (period_size s)" by (rule buf)
  from fb per show "unat (period_size s) \<in> {1152, 768, 576}"
    by (elim disjE) simp_all
qed

lemma pcm_hw_ok_bounds:
  assumes "pcm_hw_ok s"
  shows "192 \<le> period_size s" "192 \<le> buffer_size s"
    "unat (period_size s) \<le> 2 ^ 31" "unat (buffer_size s) \<le> 2 ^ 31"
  using pcm_hw_ok_sizes [OF assms]
  by (auto simp: word_le_nat_alt)


lemma pcm_short_period_not_hw_ok: "\<not> pcm_hw_ok pcm_short_period"
  by (simp add: pcm_hw_ok_def pcm_short_period_def pcm_s32_def PCM_BUFSIZE_def PCM_PERIODES_def)

text \<open>Playback keeps both counters below their bounds.\<close>

lemma dma_complete_keeps_below:
  assumes "encode_frame dev = Some f" "silence dev = 0" "ss dev = Some s" "pcm_hw_ok s"
    "pcm_pointer dev < buffer_size s" "period_frames dev < period_size s"
  shows "pcm_pointer (fst (bcm2708_i2s_dma_complete H residue dev)) < buffer_size s"
    and "period_frames (fst (bcm2708_i2s_dma_complete H residue dev)) < period_size s"
proof -
  note b = pcm_hw_ok_bounds [OF assms(4)]
  have "0 < unat (buffer_size s)" "0 < unat (period_size s)"
    using b(1,2) by (simp_all add: word_le_nat_alt)
  then have "unat (wrap_sub (pcm_pointer dev + 192) (buffer_size s)) < unat (buffer_size s)"
    "unat (wrap_sub (period_frames dev + 192) (period_size s)) < unat (period_size s)"
    using wrap_sub_mod(1) [OF assms(5) b(2) b(4)] wrap_sub_mod(1) [OF assms(6) b(1) b(3)]
    by simp_all
  then show "pcm_pointer (fst (bcm2708_i2s_dma_complete H residue dev)) < buffer_size s"
    and "period_frames (fst (bcm2708_i2s_dma_complete H residue dev)) < period_size s"
    using assms(1,2,3) by (simp_all add: dma_complete_pcm_fields word_less_nat_alt)
qed

lemma dma_complete_buffer_silence:
  assumes "frame_sized H" "encode_frame dev = Some f" "silence dev \<noteq> 0"
    "length (spdif_buffer dev) = SPDIF_BUFSIZE H"
  shows "spdif_buffer (fst (bcm2708_i2s_dma_complete H residue dev))
         = take (refill_offset H residue) (spdif_buffer dev)
           @ snd (encode_stream H f (spdif dev) (replicate (SPDIF_BUFSIZE_FRAMES div 2) zero))
           @ drop (refill_offset H residue + SPDIF_BUFSIZE H div 2) (spdif_buffer dev)"
proof -
  have fit: "refill_offset H residue + (SPDIF_BUFSIZE_FRAMES div 2) * SPDIF_FRAMESIZE H
             \<le> length (spdif_buffer dev)"
    using refill_offset_fits [of H residue] assms(4) by (simp add: half_frames)
  show ?thesis
    using assms(2,3) by (simp add: dma_complete_silence fill_silence_eq [OF assms(1) fit] half_frames)
qed

lemma dma_complete_buffer_pcm:
  assumes "frame_sized H" "encode_frame dev = Some f" "silence dev = 0" "ss dev = Some s"
    "length (spdif_buffer dev) = SPDIF_BUFSIZE H"
  shows "spdif_buffer (fst (bcm2708_i2s_dma_complete H residue dev))
         = take (refill_offset H residue) (spdif_buffer dev)
           @ snd (encode_stream H f (spdif dev)
                    (pcm_frames (dma_area s) (frames_to_bytes s 1)
                       (frames_to_bytes s (unat (pcm_pointer dev))) (SPDIF_BUFSIZE_FRAMES div 2)))
           @ drop (refill_offset H residue + SPDIF_BUFSIZE H div 2) (spdif_buffer dev)"
proof -
  have fit: "refill_offset H residue + (SPDIF_BUFSIZE_FRAMES div 2) * SPDIF_FRAMESIZE H
             \<le> length (spdif_buffer dev)"
    using refill_offset_fits [of H residue] assms(5) by (simp add: half_frames)
  show ?thesis
    using assms(2,3,4) by (simp add: dma_complete_pcm fill_pcm_eq [OF assms(1) fit] half_frames)
qed

lemma bufsize_halves: "SPDIF_BUFSIZE H = SPDIF_BUFSIZE H div 2 + SPDIF_BUFSIZE H div 2"
  by (simp add: SPDIF_BUFSIZE_def SPDIF_BUFSIZE_FRAMES_def)

text \<open>Placing frames at the offset the residue selects.\<close>

lemma place_by_residue:
  assumes "length buf = SPDIF_BUFSIZE H"
  shows "take (refill_offset H residue) buf @ fr
           @ drop (refill_offset H residue + SPDIF_BUFSIZE H div 2) buf
         = (if residue \<le> SPDIF_BUFSIZE H div 2
            then fr @ drop (SPDIF_BUFSIZE H div 2) buf
            else take (SPDIF_BUFSIZE H div 2) buf @ fr)"
proof -
  have "drop (SPDIF_BUFSIZE H div 2 + SPDIF_BUFSIZE H div 2) buf = []"
    using assms bufsize_halves [of H] by simp
  then show ?thesis by (simp add: refill_offset_def)
qed

text \<open>The stand-in encoder on sources that all start with the same byte.\<close>

lemma stub_encode_stream:
  "\<forall>src \<in> set srcs. src \<noteq> [] \<and> hd src = b \<Longrightarrow>
   snd (encode_stream stub_h f e srcs) = replicate (16 * length srcs) b"
proof (induction srcs arbitrary: e)
  case Nil
  then show ?case by simp
next
  case (Cons src srcs)
  then obtain x xs where src: "src = x # xs" and x: "x = b"
    by (cases src) auto
  have enc: "encode stub_h f e src = (Suc e, replicate 16 b)"
    by (simp add: stub_h_def src x)
  have "snd (encode_stream stub_h f (Suc e) srcs) = replicate (16 * length srcs) b"
    using Cons.prems by (intro Cons.IH) simp
  then show ?case
    by (simp add: enc case_prod_beta replicate_add [symmetric] del: replicate.simps)
qed

lemma pcm_frames_replicate:
  "0 < fb \<Longrightarrow> src + k * fb \<le> n \<Longrightarrow>
   \<forall>x \<in> set (pcm_frames (replicate n b) fb src k). x \<noteq> [] \<and> hd x = b"
proof (induction k arbitrary: src)
  case 0
  then show ?case by simp
next
  case (Suc k)
  have lt: "src < n" using Suc.prems by simp
  have "\<forall>x \<in> set (pcm_frames (replicate n b) fb (src + fb) k). x \<noteq> [] \<and> hd x = b"
    using Suc.prems by (intro Suc.IH) (simp_all add: ac_simps)
  moreover have "drop src (replicate n b) \<noteq> [] \<and> hd (drop src (replicate n b)) = b"
    using lt by (simp add: hd_drop_conv_nth)
  ultimately show ?case by simp
qed

lemma stub_pcm_s32_frames:
  "snd (encode_stream stub_h f e
         (pcm_frames (dma_area pcm_s32) (frames_to_bytes pcm_s32 1)
            (frames_to_bytes pcm_s32 0) (SPDIF_BUFSIZE_FRAMES div 2))) = replicate 3072 7"
proof -
  have "\<forall>x \<in> set (pcm_frames (replicate PCM_BUFSIZE 7) 8 0 192). x \<noteq> [] \<and> hd x = (7::u8)"
    by (intro pcm_frames_replicate) (simp_all add: PCM_BUFSIZE_def PCM_PERIODES_def)
  then show ?thesis
    using stub_encode_stream [of "pcm_frames (replicate PCM_BUFSIZE 7) 8 0 192" 7 f e]
    by (simp add: pcm_s32_def frames_to_bytes_def half_frames_nat length_pcm_frames)
qed


section \<open>The claims\<close>



text \<open>
  Claim C2. The half chosen for the refill is half 0, at offset 0, exactly when
  the residue is at most \<^verbatim>\<open>SPDIF_BUFSIZE/2\<close>, and half 1, at offset
  \<^verbatim>\<open>SPDIF_BUFSIZE/2\<close>, otherwise. The callback acts on that choice: after a
  refill the buffer is the new frames followed by the old second half when the
  residue is at most \<^verbatim>\<open>SPDIF_BUFSIZE/2\<close>, and the old first half followed by
  the new frames otherwise, both for a silence fill and for a fill from the PCM
  area. The frame size is positive, so that the two offsets differ, the encoder
  stores one frame per call and the buffer has its \<^verbatim>\<open>SPDIF_BUFSIZE\<close> bytes.
\<close>

theorem refill_half_by_residue:
  assumes "0 < SPDIF_FRAMESIZE H" and "frame_sized H"
    and "encode_frame dev = Some f" and "length (spdif_buffer dev) = SPDIF_BUFSIZE H"
  shows
   "(refill_offset H residue = 0 \<longleftrightarrow> residue \<le> SPDIF_BUFSIZE H div 2) \<and>
    (refill_offset H residue = SPDIF_BUFSIZE H div 2 \<longleftrightarrow> \<not> residue \<le> SPDIF_BUFSIZE H div 2) \<and>
    (residue \<le> SPDIF_BUFSIZE H div 2 \<longrightarrow>
       drop (SPDIF_BUFSIZE H div 2) (spdif_buffer (fst (bcm2708_i2s_dma_complete H residue dev)))
       = drop (SPDIF_BUFSIZE H div 2) (spdif_buffer dev)) \<and>
    (\<not> residue \<le> SPDIF_BUFSIZE H div 2 \<longrightarrow>
       take (SPDIF_BUFSIZE H div 2) (spdif_buffer (fst (bcm2708_i2s_dma_complete H residue dev)))
       = take (SPDIF_BUFSIZE H div 2) (spdif_buffer dev)) \<and>
    (silence dev \<noteq> 0 \<longrightarrow>
       spdif_buffer (fst (bcm2708_i2s_dma_complete H residue dev))
       = (if residue \<le> SPDIF_BUFSIZE H div 2
          then snd (encode_stream H f (spdif dev) (replicate (SPDIF_BUFSIZE_FRAMES div 2) zero))
               @ drop (SPDIF_BUFSIZE H div 2) (spdif_buffer dev)
          else take (SPDIF_BUFSIZE H div 2) (spdif_buffer dev)
               @ snd (encode_stream H f (spdif dev) (replicate (SPDIF_BUFSIZE_FRAMES div 2) zero)))) \<and>
    (silence dev = 0 \<longrightarrow> (\<forall>s. ss dev = Some s \<longrightarrow>
       spdif_buffer (fst (bcm2708_i2s_dma_complete H residue dev))
       = (if residue \<le> SPDIF_BUFSIZE H div 2
          then snd (encode_stream H f (spdif dev)
                     (pcm_frames (dma_area s) (frames_to_bytes s 1)
                        (frames_to_bytes s (unat (pcm_pointer dev))) (SPDIF_BUFSIZE_FRAMES div 2)))
               @ drop (SPDIF_BUFSIZE H div 2) (spdif_buffer dev)
          else take (SPDIF_BUFSIZE H div 2) (spdif_buffer dev)
               @ snd (encode_stream H f (spdif dev)
                     (pcm_frames (dma_area s) (frames_to_bytes s 1)
                        (frames_to_bytes s (unat (pcm_pointer dev))) (SPDIF_BUFSIZE_FRAMES div 2))))))"
proof -
  have pos: "0 < SPDIF_BUFSIZE H div 2"
    using assms(1) by (simp add: SPDIF_BUFSIZE_def SPDIF_BUFSIZE_FRAMES_def)
  have off: "(refill_offset H residue = 0 \<longleftrightarrow> residue \<le> SPDIF_BUFSIZE H div 2) \<and>
    (refill_offset H residue = SPDIF_BUFSIZE H div 2 \<longleftrightarrow> \<not> residue \<le> SPDIF_BUFSIZE H div 2)"
    using pos by (simp add: refill_offset_def)
  have lo: "drop (SPDIF_BUFSIZE H div 2) (spdif_buffer (fst (bcm2708_i2s_dma_complete H residue dev)))
       = drop (SPDIF_BUFSIZE H div 2) (spdif_buffer dev)"
    if "residue \<le> SPDIF_BUFSIZE H div 2"
    using dma_complete_frame(2) [OF assms(2), of residue dev] that
    by (simp add: refill_offset_def)
  have hi: "take (SPDIF_BUFSIZE H div 2) (spdif_buffer (fst (bcm2708_i2s_dma_complete H residue dev)))
       = take (SPDIF_BUFSIZE H div 2) (spdif_buffer dev)"
    if "\<not> residue \<le> SPDIF_BUFSIZE H div 2"
    using dma_complete_frame(1) [OF assms(2), of residue dev] that
    by (simp add: refill_offset_def)
  have sil: "spdif_buffer (fst (bcm2708_i2s_dma_complete H residue dev))
       = (if residue \<le> SPDIF_BUFSIZE H div 2
          then snd (encode_stream H f (spdif dev) (replicate (SPDIF_BUFSIZE_FRAMES div 2) zero))
               @ drop (SPDIF_BUFSIZE H div 2) (spdif_buffer dev)
          else take (SPDIF_BUFSIZE H div 2) (spdif_buffer dev)
               @ snd (encode_stream H f (spdif dev) (replicate (SPDIF_BUFSIZE_FRAMES div 2) zero)))"
    if "silence dev \<noteq> 0"
    using dma_complete_buffer_silence [OF assms(2,3) that assms(4), of residue]
    by (simp only: place_by_residue [OF assms(4)])
  have pcm: "spdif_buffer (fst (bcm2708_i2s_dma_complete H residue dev))
       = (if residue \<le> SPDIF_BUFSIZE H div 2
          then snd (encode_stream H f (spdif dev)
                     (pcm_frames (dma_area s) (frames_to_bytes s 1)
                        (frames_to_bytes s (unat (pcm_pointer dev))) (SPDIF_BUFSIZE_FRAMES div 2)))
               @ drop (SPDIF_BUFSIZE H div 2) (spdif_buffer dev)
          else take (SPDIF_BUFSIZE H div 2) (spdif_buffer dev)
               @ snd (encode_stream H f (spdif dev)
                     (pcm_frames (dma_area s) (frames_to_bytes s 1)
                        (frames_to_bytes s (unat (pcm_pointer dev))) (SPDIF_BUFSIZE_FRAMES div 2))))"
    if "silence dev = 0" "ss dev = Some s" for s
    using dma_complete_buffer_pcm [OF assms(2,3) that assms(4), of residue]
    by (simp only: place_by_residue [OF assms(4)])
  from off lo hi sil pcm show ?thesis by blast
qed

theorem refill_half_by_residue_witness:
  "0 < SPDIF_FRAMESIZE stub_h \<and>
   refill_offset stub_h 3072 = 0 \<and> refill_offset stub_h 3073 = 3072 \<and>
   spdif_buffer playing = replicate 6144 0 \<and>
   spdif_buffer (fst (bcm2708_i2s_dma_complete stub_h 3072 playing))
     = replicate 3072 7 @ replicate 3072 0 \<and>
   spdif_buffer (fst (bcm2708_i2s_dma_complete stub_h 3073 playing))
     = replicate 3072 0 @ replicate 3072 7"
  using refill_half_by_residue [of stub_h playing spdif_encode_frame_s32le 3072]
    refill_half_by_residue [of stub_h playing spdif_encode_frame_s32le 3073]
  by (simp add: frame_sized_stub stub_framesize stub_bufsize playing_fields
        stub_pcm_s32_frames [of spdif_encode_frame_s32le, simplified]
        playing_def silent_def probed_def bcm2708_i2s_probe_def)

text \<open>
  Claim C5. The start trigger sets \<open>pcm_pointer\<close> and \<open>period_frames\<close> to 0 and
  exchanges the silence counter for 0; the value it obtains is the previous
  one, which decides the message it logs.
\<close>

theorem trigger_start_resets:
  "fst (bcm2708_pcm_trigger H dma SNDRV_PCM_TRIGGER_START dev) = Inr () \<and>
   pcm_pointer (fst (snd (bcm2708_pcm_trigger H dma SNDRV_PCM_TRIGGER_START dev))) = 0 \<and>
   period_frames (fst (snd (bcm2708_pcm_trigger H dma SNDRV_PCM_TRIGGER_START dev))) = 0 \<and>
   silence (fst (snd (bcm2708_pcm_trigger H dma SNDRV_PCM_TRIGGER_START dev))) = 0 \<and>
   atomic_xchg (silence dev) 0 = (silence dev, 0) \<and>
   hd (snd (snd (bcm2708_pcm_trigger H dma SNDRV_PCM_TRIGGER_START dev))) =
     (if 1 <s silence dev
      then INFO_START_SILENCED (c_sdiv ((silence dev + 1) * of_nat SPDIF_BUFSIZE_FRAMES) 2)
      else INFO_START)"
  by (simp add: bcm2708_pcm_trigger_def Let_def case_prod_beta atomic_xchg_def submit_keeps)

text \<open>
  Claim C7. Prepare with a sampling rate outside 44100, 48000, 88200, 96000,
  176400 and 192000, or with a format outside the six the driver encodes,
  returns \<^verbatim>\<open>-EINVAL\<close> and leaves the whole device as it was: no channel
  status, no encoder and no frame. All it does is log the error.
\<close>

theorem prepare_rejects:
  assumes "rate s \<notin> {44100, 48000, 88200, 96000, 176400, 192000} \<or>
           format s \<notin> {SNDRV_PCM_FORMAT_S16_LE, SNDRV_PCM_FORMAT_S20_LE, SNDRV_PCM_FORMAT_S24_LE,
                        SNDRV_PCM_FORMAT_S20_3LE, SNDRV_PCM_FORMAT_S24_3LE, SNDRV_PCM_FORMAT_S32_LE}"
  shows "fst (bcm2708_pcm_prepare H dma s dev) = Inl EINVAL \<and>
         fst (snd (bcm2708_pcm_prepare H dma s dev)) = dev \<and>
         snd (snd (bcm2708_pcm_prepare H dma s dev)) \<in>
           {[ERR_INVALID_RATE (rate s)], [ERR_INVALID_FORMAT (format s)]}"
proof (cases "cs3_of_rate H (rate s)")
  case None
  then show ?thesis by (simp add: bcm2708_pcm_prepare_def)
next
  case (Some c)
  then have "rate s \<in> {44100, 48000, 88200, 96000, 176400, 192000}"
    by (auto simp: cs3_of_rate_def split: if_splits)
  with assms have "encoder_of_format (format s) = None"
    by (cases "format s") auto
  with Some show ?thesis by (simp add: bcm2708_pcm_prepare_def)
qed

theorem prepare_rejects_witness:
  "rate pcm_bad_rate \<notin> {44100, 48000, 88200, 96000, 176400, 192000} \<and>
   fst (bcm2708_pcm_prepare stub_h (Some 1) pcm_bad_rate probed) = Inl EINVAL \<and>
   fst (snd (bcm2708_pcm_prepare stub_h (Some 1) pcm_bad_rate probed)) = probed"
  using prepare_rejects [of pcm_bad_rate stub_h "Some 1" probed]
  by (simp add: pcm_bad_rate_def pcm_s32_def)

text \<open>
  Claim C8. A refill writes within the selected half only: the bytes before
  the offset and the bytes from the end of the half on are the old ones, and
  the buffer keeps its length. The callback is a function that returns the
  device with the half already holding all its frames; nothing is deferred.
\<close>

theorem refill_touches_one_half:
  assumes "frame_sized H"
  shows
   "take (refill_offset H residue) (spdif_buffer (fst (bcm2708_i2s_dma_complete H residue dev)))
      = take (refill_offset H residue) (spdif_buffer dev) \<and>
    drop (refill_offset H residue + SPDIF_BUFSIZE H div 2)
         (spdif_buffer (fst (bcm2708_i2s_dma_complete H residue dev)))
      = drop (refill_offset H residue + SPDIF_BUFSIZE H div 2) (spdif_buffer dev) \<and>
    length (spdif_buffer (fst (bcm2708_i2s_dma_complete H residue dev)))
      = length (spdif_buffer dev) \<and>
    (length (spdif_buffer dev) = SPDIF_BUFSIZE H \<and> silence dev \<noteq> 0 \<longrightarrow>
       (\<forall>f. encode_frame dev = Some f \<longrightarrow>
          spdif_buffer (fst (bcm2708_i2s_dma_complete H residue dev))
          = take (refill_offset H residue) (spdif_buffer dev)
            @ snd (encode_stream H f (spdif dev) (replicate (SPDIF_BUFSIZE_FRAMES div 2) zero))
            @ drop (refill_offset H residue + SPDIF_BUFSIZE H div 2) (spdif_buffer dev))) \<and>
    (length (spdif_buffer dev) = SPDIF_BUFSIZE H \<and> silence dev = 0 \<longrightarrow>
       (\<forall>f s. encode_frame dev = Some f \<and> ss dev = Some s \<longrightarrow>
          spdif_buffer (fst (bcm2708_i2s_dma_complete H residue dev))
          = take (refill_offset H residue) (spdif_buffer dev)
            @ snd (encode_stream H f (spdif dev)
                     (pcm_frames (dma_area s) (frames_to_bytes s 1)
                        (frames_to_bytes s (unat (pcm_pointer dev))) (SPDIF_BUFSIZE_FRAMES div 2)))
            @ drop (refill_offset H residue + SPDIF_BUFSIZE H div 2) (spdif_buffer dev)))"
proof (intro conjI impI allI)
  show "take (refill_offset H residue) (spdif_buffer (fst (bcm2708_i2s_dma_complete H residue dev)))
      = take (refill_offset H residue) (spdif_buffer dev)"
    by (rule dma_complete_frame(1) [OF assms])
  show "drop (refill_offset H residue + SPDIF_BUFSIZE H div 2)
         (spdif_buffer (fst (bcm2708_i2s_dma_complete H residue dev)))
      = drop (refill_offset H residue + SPDIF_BUFSIZE H div 2) (spdif_buffer dev)"
    by (rule dma_complete_frame(2) [OF assms])
  show "length (spdif_buffer (fst (bcm2708_i2s_dma_complete H residue dev)))
      = length (spdif_buffer dev)"
    by (rule dma_complete_frame(3) [OF assms])
next
  fix f
  assume a: "length (spdif_buffer dev) = SPDIF_BUFSIZE H \<and> silence dev \<noteq> 0"
    and f: "encode_frame dev = Some f"
  have fit: "refill_offset H residue + (SPDIF_BUFSIZE_FRAMES div 2) * SPDIF_FRAMESIZE H
             \<le> length (spdif_buffer dev)"
    using refill_offset_fits [of H residue] a by (simp add: half_frames)
  show "spdif_buffer (fst (bcm2708_i2s_dma_complete H residue dev))
          = take (refill_offset H residue) (spdif_buffer dev)
            @ snd (encode_stream H f (spdif dev) (replicate (SPDIF_BUFSIZE_FRAMES div 2) zero))
            @ drop (refill_offset H residue + SPDIF_BUFSIZE H div 2) (spdif_buffer dev)"
    using a f by (simp add: dma_complete_silence fill_silence_eq [OF assms fit] half_frames)
next
  fix f s
  assume a: "length (spdif_buffer dev) = SPDIF_BUFSIZE H \<and> silence dev = 0"
    and f: "encode_frame dev = Some f \<and> ss dev = Some s"
  have fit: "refill_offset H residue + (SPDIF_BUFSIZE_FRAMES div 2) * SPDIF_FRAMESIZE H
             \<le> length (spdif_buffer dev)"
    using refill_offset_fits [of H residue] a by (simp add: half_frames)
  show "spdif_buffer (fst (bcm2708_i2s_dma_complete H residue dev))
          = take (refill_offset H residue) (spdif_buffer dev)
            @ snd (encode_stream H f (spdif dev)
                     (pcm_frames (dma_area s) (frames_to_bytes s 1)
                        (frames_to_bytes s (unat (pcm_pointer dev))) (SPDIF_BUFSIZE_FRAMES div 2)))
            @ drop (refill_offset H residue + SPDIF_BUFSIZE H div 2) (spdif_buffer dev)"
    using a f by (simp add: dma_complete_pcm fill_pcm_eq [OF assms fit] half_frames)
qed

theorem refill_touches_one_half_witness:
  "frame_sized stub_h \<and>
   take 3072 (spdif_buffer (fst (bcm2708_i2s_dma_complete stub_h 4000 silent)))
     = take 3072 (spdif_buffer silent) \<and>
   length (spdif_buffer (fst (bcm2708_i2s_dma_complete stub_h 4000 silent))) = 6144 \<and>
   silence silent \<noteq> 0 \<and> silence playing = 0 \<and>
   length (snd (encode_stream stub_h spdif_encode_frame_s32le (spdif silent)
                  (replicate (SPDIF_BUFSIZE_FRAMES div 2) zero))) = 3072"
  using refill_touches_one_half [of stub_h 4000 silent]
    refill_touches_one_half [of stub_h 4000 playing]
    length_encode_stream [of stub_h spdif_encode_frame_s32le "spdif silent"
      "replicate (SPDIF_BUFSIZE_FRAMES div 2) zero"]
  by (simp add: frame_sized_stub stub_bufsize stub_framesize refill_offset_def silent_fields
        playing_fields half_frames_nat)

text \<open>
  Claim C9. With a transfer submitted (\<^verbatim>\<open>i2s_dma_cookie > 0\<close>),
  \<^verbatim>\<open>bcm2708_i2s_dmaengine_prepare_and_submit\<close> returns 0 and does nothing: the
  device, its S/PDIF buffer included, is unchanged and no descriptor is asked
  for. A second call after a submission that gave a positive cookie is therefore
  without effect.
\<close>

theorem submit_pending_noop:
  "(0 < i2s_dma_cookie dev \<longrightarrow>
      bcm2708_i2s_dmaengine_prepare_and_submit H dma dev = (Inr (), dev, [])) \<and>
   (0 < cookie \<longrightarrow>
      bcm2708_i2s_dmaengine_prepare_and_submit H dma'
        (fst (snd (bcm2708_i2s_dmaengine_prepare_and_submit H (Some cookie) dev)))
      = (Inr (), fst (snd (bcm2708_i2s_dmaengine_prepare_and_submit H (Some cookie) dev)), []))"
  by (simp add: bcm2708_i2s_dmaengine_prepare_and_submit_def Let_def case_prod_beta
        split: option.splits)

theorem submit_pending_noop_witness:
  "0 < i2s_dma_cookie playing \<and>
   bcm2708_i2s_dmaengine_prepare_and_submit stub_h None playing = (Inr (), playing, []) \<and>
   (0::int) < 5 \<and>
   i2s_dma_cookie (fst (snd (bcm2708_i2s_dmaengine_prepare_and_submit stub_h None
      (fst (snd (bcm2708_i2s_dmaengine_prepare_and_submit stub_h (Some 5) probed)))))) = 5"
  using submit_pending_noop [where dev = playing and H = stub_h and dma = None]
    submit_pending_noop [where dev = probed and H = stub_h and cookie = 5 and dma' = None]
  by (simp add: playing_fields bcm2708_i2s_dmaengine_prepare_and_submit_def probed_def
        bcm2708_i2s_probe_def)

text \<open>
  Claim C10. A completion callback that runs before any successful prepare
  (\<^verbatim>\<open>encode_frame\<close> is \<^verbatim>\<open>NULL\<close>) returns at once: the device is unchanged,
  and nothing is notified.
\<close>

theorem dma_complete_before_prepare:
  "encode_frame dev = None \<Longrightarrow>
   bcm2708_i2s_dma_complete H residue dev = (dev, [])"
  by (rule dma_complete_unconfigured)

theorem dma_complete_before_prepare_witness:
  "encode_frame probed = None \<and> bcm2708_i2s_dma_complete stub_h 100 probed = (probed, [])"
  using dma_complete_before_prepare [of probed stub_h 100]
  by (simp add: probed_def bcm2708_i2s_probe_def)



text \<open>
  The subtraction is an \<^verbatim>\<open>if\<close>, not a loop. A substream with periods of 96
  frames, which the declared constraints exclude and ALSA therefore never hands
  over, would be notified once by a refill that spans two periods.
\<close>

lemma short_period_notifies_once:
  "snd (bcm2708_i2s_dma_complete stub_h 0
         (fst (run stub_h [OPEN pcm_short_period, PREPARE (Some 1),
                           TRIGGER None SNDRV_PCM_TRIGGER_START] probed)))
     = [SND_PCM_PERIOD_ELAPSED] \<and>
   (unat (period_frames (fst (run stub_h [OPEN pcm_short_period, PREPARE (Some 1),
                           TRIGGER None SNDRV_PCM_TRIGGER_START] probed)))
      + SPDIF_BUFSIZE_FRAMES div 2) div unat (period_size pcm_short_period) = 2 \<and>
   period_frames (fst (bcm2708_i2s_dma_complete stub_h 0
         (fst (run stub_h [OPEN pcm_short_period, PREPARE (Some 1),
                           TRIGGER None SNDRV_PCM_TRIGGER_START] probed))))
     = period_size pcm_short_period"
proof -
  let ?d = "fst (run stub_h [OPEN pcm_short_period, PREPARE (Some 1),
                           TRIGGER None SNDRV_PCM_TRIGGER_START] probed)"
  note st = run_to_start [OF short_period_fields(1,2), of "Some 1" None probed]
  show ?thesis
    by (simp only: dma_complete_pcm [OF st(1,2,3)] st(4,5)) 
       (simp add: short_period_fields half_frames_word half_frames_nat wrap_sub_def)
qed

text \<open>
  Claim C4, as the code has it. The stop trigger terminates the DMA transfers
  and clears the cookie; it emits no period-elapsed notification and leaves the
  silence counter, the substream and both position counters as they are. A
  completion callback that arrives afterwards emits nothing and is independent
  of the substream when the silence counter is nonzero (a silence fill), and
  does nothing at all when the counter is zero and no substream is open.
\<close>

theorem stop_then_complete:
  "bcm2708_pcm_trigger H dma SNDRV_PCM_TRIGGER_STOP dev
     = (Inr (), dev\<lparr>i2s_dma_cookie := 0\<rparr>, [INFO_STOP, DMAENGINE_TERMINATE_ALL]) \<and>
   (silence dev \<noteq> 0 \<longrightarrow>
      bcm2708_i2s_dma_complete H residue (dev\<lparr>i2s_dma_cookie := 0, ss := x\<rparr>)
      = (fst (bcm2708_i2s_dma_complete H residue (dev\<lparr>i2s_dma_cookie := 0\<rparr>))\<lparr>ss := x\<rparr>, [])) \<and>
   (silence dev = 0 \<and> ss dev = None \<longrightarrow>
      bcm2708_i2s_dma_complete H residue (dev\<lparr>i2s_dma_cookie := 0\<rparr>)
      = (dev\<lparr>i2s_dma_cookie := 0\<rparr>, []))"
proof (intro conjI impI)
  show "bcm2708_pcm_trigger H dma SNDRV_PCM_TRIGGER_STOP dev
     = (Inr (), dev\<lparr>i2s_dma_cookie := 0\<rparr>, [INFO_STOP, DMAENGINE_TERMINATE_ALL])"
    by (rule trigger_stop)
next
  assume sil: "silence dev \<noteq> 0"
  show "bcm2708_i2s_dma_complete H residue (dev\<lparr>i2s_dma_cookie := 0, ss := x\<rparr>)
      = (fst (bcm2708_i2s_dma_complete H residue (dev\<lparr>i2s_dma_cookie := 0\<rparr>))\<lparr>ss := x\<rparr>, [])"
  proof (cases "encode_frame dev")
    case None
    then show ?thesis by (simp add: dma_complete_unconfigured)
  next
    case (Some f)
    then show ?thesis using sil by (simp add: dma_complete_silence)
  qed
next
  assume idle: "silence dev = 0 \<and> ss dev = None"
  show "bcm2708_i2s_dma_complete H residue (dev\<lparr>i2s_dma_cookie := 0\<rparr>)
      = (dev\<lparr>i2s_dma_cookie := 0\<rparr>, [])"
  proof (cases "encode_frame dev")
    case None
    then show ?thesis by (simp add: dma_complete_unconfigured)
  next
    case (Some f)
    then show ?thesis using idle by (simp add: dma_complete_idle)
  qed
qed

theorem stop_then_complete_witness:
  "silence silent \<noteq> 0 \<and>
   snd (bcm2708_i2s_dma_complete stub_h 0 (silent\<lparr>i2s_dma_cookie := 0, ss := None\<rparr>)) = [] \<and>
   silence probed = 0 \<and> ss probed = None \<and>
   bcm2708_i2s_dma_complete stub_h 0 (probed\<lparr>i2s_dma_cookie := 0\<rparr>)
     = (probed\<lparr>i2s_dma_cookie := 0\<rparr>, [])"
  using stop_then_complete [of stub_h None silent 0 None]
    stop_then_complete [of stub_h None probed 0 None]
  by (simp add: silent_fields probed_def bcm2708_i2s_probe_def)

text \<open>
  The stop trigger does not touch the silence counter. A completion callback
  that arrives after a stop during playback, with the substream still open,
  refills from the PCM area; here it completes a period and notifies.
\<close>

theorem notification_after_stop:
  "snd (step stub_h (DMA_COMPLETE 0)
         (fst (run stub_h [OPEN pcm_s32, PREPARE (Some 1), TRIGGER None SNDRV_PCM_TRIGGER_START,
                           DMA_COMPLETE 0, DMA_COMPLETE 4000,
                           TRIGGER None SNDRV_PCM_TRIGGER_STOP] probed)))
     = [SND_PCM_PERIOD_ELAPSED] \<and>
   pcm_pointer (fst (step stub_h (DMA_COMPLETE 0)
         (fst (run stub_h [OPEN pcm_s32, PREPARE (Some 1), TRIGGER None SNDRV_PCM_TRIGGER_START,
                           DMA_COMPLETE 0, DMA_COMPLETE 4000,
                           TRIGGER None SNDRV_PCM_TRIGGER_STOP] probed))))
     = 576"
proof -
  define d0 where "d0 = fst (run stub_h [OPEN pcm_s32, PREPARE (Some 1),
                                         TRIGGER None SNDRV_PCM_TRIGGER_START] probed)"
  define d1 where "d1 = fst (bcm2708_i2s_dma_complete stub_h 0 d0)"
  define d2 where "d2 = fst (bcm2708_i2s_dma_complete stub_h 4000 d1)"
  define d3 where "d3 = d2\<lparr>i2s_dma_cookie := 0\<rparr>"
  note s0 = run_to_start [OF pcm_s32_accepted, of "Some 1" None probed, folded d0_def]
  note s1 = dma_complete_pcm_fields [OF s0(1,2,3), of stub_h 0, folded d1_def]
  note s2 = dma_complete_pcm_fields [OF s1(1,2,3), of stub_h 4000, folded d2_def]
  have p1: "pcm_pointer d1 = 192" "period_frames d1 = 192"
    by (simp_all add: s1(4,5) s0(4,5) pcm_s32_fields wrap_sub_def)
  have p2: "pcm_pointer d2 = 384" "period_frames d2 = 384"
    by (simp_all add: s2(4,5) p1 pcm_s32_fields wrap_sub_def)
  have s3: "encode_frame d3 = Some spdif_encode_frame_s32le" "silence d3 = 0"
    "ss d3 = Some pcm_s32" "pcm_pointer d3 = 384" "period_frames d3 = 384"
    by (simp_all add: d3_def s2(1,2,3) p2)
  have "[OPEN pcm_s32, PREPARE (Some 1), TRIGGER None SNDRV_PCM_TRIGGER_START,
         DMA_COMPLETE 0, DMA_COMPLETE 4000, TRIGGER None SNDRV_PCM_TRIGGER_STOP]
        = [OPEN pcm_s32, PREPARE (Some 1), TRIGGER None SNDRV_PCM_TRIGGER_START]
          @ [DMA_COMPLETE 0, DMA_COMPLETE 4000, TRIGGER None SNDRV_PCM_TRIGGER_STOP]"
    by simp
  then have "fst (run stub_h [OPEN pcm_s32, PREPARE (Some 1), TRIGGER None SNDRV_PCM_TRIGGER_START,
                     DMA_COMPLETE 0, DMA_COMPLETE 4000, TRIGGER None SNDRV_PCM_TRIGGER_STOP] probed)
        = fst (run stub_h [DMA_COMPLETE 0, DMA_COMPLETE 4000, TRIGGER None SNDRV_PCM_TRIGGER_STOP] d0)"
    by (simp only: run_append d0_def fst_conv)
  also have "\<dots> = d3"
    by (simp add: case_prod_beta trigger_stop d1_def d2_def d3_def)
  finally show ?thesis
    using dma_complete_pcm_fields(4,6) [OF s3(1,2,3), of stub_h 0]
    by (simp add: s3 pcm_s32_fields wrap_sub_def)
qed

text \<open>
  Claim C6, as the code has it. The completion callback increments the silence
  counter only if it was nonzero and never moves it from 0 to a nonzero value.
  Of all entry points only prepare does that, by its compare-and-exchange of 0
  for 1.
\<close>

theorem silence_leaves_zero_by_prepare:
  "silence (fst (bcm2708_i2s_dma_complete H residue dev))
     = (if encode_frame dev \<noteq> None \<and> silence dev \<noteq> 0 then silence dev + 1 else silence dev) \<and>
   (silence dev = 0 \<and> silence (fst (step H x dev)) \<noteq> 0 \<longrightarrow>
      (\<exists>dma. x = PREPARE dma) \<and> silence (fst (step H x dev)) = 1)"
proof (intro conjI impI)
  show "silence (fst (bcm2708_i2s_dma_complete H residue dev))
     = (if encode_frame dev \<noteq> None \<and> silence dev \<noteq> 0 then silence dev + 1 else silence dev)"
    by (rule dma_complete_silence_counter)
next
  assume "silence dev = 0 \<and> silence (fst (step H x dev)) \<noteq> 0"
  then have z: "silence dev = 0" and a: "silence (fst (step H x dev)) \<noteq> 0"
    by simp_all
  show "\<exists>dma. x = PREPARE dma"
  proof (cases x)
    case (OPEN s)
    with a z show ?thesis by (simp add: bcm2708_pcm_open_def)
  next
    case CLOSE
    with a z show ?thesis by (simp add: bcm2708_pcm_close_def)
  next
    case (PREPARE dma)
    then show ?thesis by simp
  next
    case (TRIGGER dma cmd)
    with a show ?thesis using trigger_silence_counter [OF z, of H dma cmd] by simp
  next
    case (DMA_COMPLETE r)
    with a z show ?thesis by (simp add: dma_complete_silence_counter)
  qed
  then obtain dma where x: "x = PREPARE dma" ..
  show "silence (fst (step H x dev)) = 1"
  proof (cases "ss dev")
    case None
    with a z x show ?thesis by simp
  next
    case (Some s)
    with a z x show ?thesis using prepare_silence_counter [of H dma s dev] by auto
  qed
qed

theorem silence_leaves_zero_by_prepare_witness:
  "silence (bcm2708_pcm_open pcm_s32 probed) = 0 \<and>
   silence (fst (step stub_h (PREPARE (Some 1)) (bcm2708_pcm_open pcm_s32 probed))) = 1"
proof -
  have s: "ss (bcm2708_pcm_open pcm_s32 probed) = Some pcm_s32"
    "silence (bcm2708_pcm_open pcm_s32 probed) = 0"
    by (simp_all add: bcm2708_pcm_open_def probed_def bcm2708_i2s_probe_def)
  have "silence (fst (step stub_h (PREPARE (Some 1)) (bcm2708_pcm_open pcm_s32 probed))) \<noteq> 0"
    by (simp add: s prepare_accepts(3) [OF pcm_s32_accepted])
  then show ?thesis
    using silence_leaves_zero_by_prepare [of stub_h 0 "bcm2708_pcm_open pcm_s32 probed" "PREPARE (Some 1)"] s(2)
    by simp
qed

text \<open>
  The stop trigger is not such a transition: it leaves a counter of 0 at 0, and
  the prepare call that follows moves it to 1.
\<close>

theorem stop_keeps_silence_zero:
  "silence playing = 0 \<and>
   silence (fst (step stub_h (TRIGGER None SNDRV_PCM_TRIGGER_STOP) playing)) = 0 \<and>
   silence (fst (step stub_h (PREPARE (Some 2))
              (fst (step stub_h (TRIGGER None SNDRV_PCM_TRIGGER_STOP) playing)))) = 1"
  by (simp add: trigger_stop playing_fields prepare_accepts(3) [OF pcm_s32_accepted])

end
